theory Spec2Isabelle
  imports Main
begin

section \<open>Python strings\<close>

text \<open>
  Strings are modelled as \<open>string\<close>; a character is one 8-bit \<open>char\<close>, so the model
  covers the code points below 256.  The operations below are the ones
  \<^verbatim>\<open>pdf_extractor.py\<close> calls on \<^verbatim>\<open>str\<close>: \<^verbatim>\<open>find\<close>, slicing, \<^verbatim>\<open>strip\<close>,
  \<^verbatim>\<open>split\<close> and \<^verbatim>\<open>join\<close>.
\<close>

definition nl :: char where
  "nl = CHR 0x0A"

text \<open>\<^verbatim>\<open>str.isspace\<close> on one character (also the class \<^verbatim>\<open>\s\<close> of \<^verbatim>\<open>re\<close>): the
  code points 9-13, 28-32, 133 and 160.\<close>

definition isspace :: "char \<Rightarrow> bool" where
  "isspace c = (c \<in> set [CHR 0x09, CHR 0x0A, CHR 0x0B, CHR 0x0C, CHR 0x0D,
                          CHR 0x1C, CHR 0x1D, CHR 0x1E, CHR 0x1F, CHR 0x20,
                          CHR 0x85, CHR 0xA0])"

definition strip_with :: "(char \<Rightarrow> bool) \<Rightarrow> string \<Rightarrow> string" where
  "strip_with p s = rev (dropWhile p (rev (dropWhile p s)))"

text \<open>\<^verbatim>\<open>s.strip()\<close>\<close>

definition strip :: "string \<Rightarrow> string" where
  "strip s = strip_with isspace s"

text \<open>\<^verbatim>\<open>s.strip(chars)\<close>\<close>

definition strip_chars :: "string \<Rightarrow> string \<Rightarrow> string" where
  "strip_chars chars s = strip_with (\<lambda>c. c \<in> set chars) s"

text \<open>\<^verbatim>\<open>s.startswith(sub)\<close>\<close>

fun starts_with :: "string \<Rightarrow> string \<Rightarrow> bool" where
  "starts_with s [] = True"
| "starts_with [] (c # cs) = False"
| "starts_with (x # xs) (c # cs) = (x = c \<and> starts_with xs cs)"

text \<open>The scan of \<^verbatim>\<open>find\<close>: \<open>s\<close> is what is left of the subject from index \<open>k\<close> on.\<close>

fun find_from :: "string \<Rightarrow> string \<Rightarrow> nat \<Rightarrow> int" where
  "find_from sub [] k = (if sub = [] then int k else - 1)"
| "find_from sub (c # cs) k =
     (if starts_with (c # cs) sub then int k else find_from sub cs (Suc k))"

text \<open>\<^verbatim>\<open>s.find(sub, start)\<close>: a negative \<open>start\<close> counts from the end, a \<open>start\<close>
  beyond the end finds nothing, not even the empty string.\<close>

definition py_find :: "string \<Rightarrow> string \<Rightarrow> int \<Rightarrow> int" where
  "py_find s sub start =
     (let n = int (length s);
          st = (if start < 0 then max 0 (start + n) else start)
      in if n < st then - 1 else find_from sub (drop (nat st) s) (nat st))"

text \<open>\<^verbatim>\<open>s[a:b]\<close>: negative bounds count from the end, both are clipped to the string.\<close>

definition clip_index :: "nat \<Rightarrow> int \<Rightarrow> nat" where
  "clip_index n i = (if i < 0 then nat (max 0 (i + int n)) else min (nat i) n)"

definition py_slice :: "string \<Rightarrow> int \<Rightarrow> int \<Rightarrow> string" where
  "py_slice s a b =
     (let lo = clip_index (length s) a; hi = clip_index (length s) b
      in take (hi - lo) (drop lo s))"

text \<open>\<^verbatim>\<open>s.split("\n")\<close>: never empty, one more piece than there are newlines.\<close>

fun split_nl :: "string \<Rightarrow> string list" where
  "split_nl [] = [[]]"
| "split_nl (c # cs) =
     (if c = nl then [] # split_nl cs
      else (case split_nl cs of [] \<Rightarrow> [[c]] | l # ls \<Rightarrow> (c # l) # ls))"

text \<open>\<^verbatim>\<open>sep.join(parts)\<close>\<close>

fun py_join :: "string \<Rightarrow> string list \<Rightarrow> string" where
  "py_join sep [] = []"
| "py_join sep [x] = x"
| "py_join sep (x # y # r) = x @ sep @ py_join sep (y # r)"

section \<open>The regular expressions of the module\<close>

text \<open>
  Every pattern of \<^verbatim>\<open>pdf_extractor.py\<close> is a sequence of items: a literal character,
  a character class under \<^verbatim>\<open>*?\<close>, \<^verbatim>\<open>*\<close> or \<^verbatim>\<open>+\<close>, and the anchors \<^verbatim>\<open>^\<close> and \<^verbatim>\<open>$\<close>.
  The classes are \<^verbatim>\<open>.\<close> (anything but a newline), \<^verbatim>\<open>\s\<close> and \<^verbatim>\<open>[^c]\<close>.
\<close>

datatype cclass = Dot | Space | NotChar char

fun in_class :: "cclass \<Rightarrow> char \<Rightarrow> bool" where
  "in_class Dot c = (c \<noteq> nl)"
| "in_class Space c = isspace c"
| "in_class (NotChar x) c = (c \<noteq> x)"

datatype item = Lit char | LazyStar cclass | GreedyStar cclass | GreedyPlus cclass
  | Caret | Dollar

text \<open>
  The backtracking matcher of \<^verbatim>\<open>re\<close>, anchored at the current position: \<open>i\<close> is the
  index of the position in the subject and \<open>s\<close> the subject from there on.  The result
  is the first match in the engine's order of preference: the text each item matched,
  in order, and the rest of the subject.  A lazy star tries what follows it before it
  takes one more character; a greedy one takes the character first.
\<close>

fun re_match :: "item list \<Rightarrow> nat \<Rightarrow> string \<Rightarrow> (string list \<times> string) option" where
  "re_match [] i s = Some ([], s)"
| "re_match (Lit c # r) i [] = None"
| "re_match (Lit c # r) i (x # xs) =
     (if x = c
      then (case re_match r (Suc i) xs of
              None \<Rightarrow> None
            | Some (ps, t) \<Rightarrow> Some ([x] # ps, t))
      else None)"
| "re_match (Caret # r) i s =
     (if i = 0
      then (case re_match r i s of
              None \<Rightarrow> None
            | Some (ps, t) \<Rightarrow> Some ([] # ps, t))
      else None)"
| "re_match (Dollar # r) i s =
     (if s = [] \<or> s = [nl]
      then (case re_match r i s of
              None \<Rightarrow> None
            | Some (ps, t) \<Rightarrow> Some ([] # ps, t))
      else None)"
| "re_match (LazyStar k # r) i [] =
     (case re_match r i [] of
        None \<Rightarrow> None
      | Some (ps, t) \<Rightarrow> Some ([] # ps, t))"
| "re_match (LazyStar k # r) i (x # xs) =
     (case re_match r i (x # xs) of
        Some (ps, t) \<Rightarrow> Some ([] # ps, t)
      | None \<Rightarrow>
          if in_class k x
          then (case re_match (LazyStar k # r) (Suc i) xs of
                  Some (p # ps, t) \<Rightarrow> Some ((x # p) # ps, t)
                | _ \<Rightarrow> None)
          else None)"
| "re_match (GreedyStar k # r) i [] =
     (case re_match r i [] of
        None \<Rightarrow> None
      | Some (ps, t) \<Rightarrow> Some ([] # ps, t))"
| "re_match (GreedyStar k # r) i (x # xs) =
     (case (if in_class k x
            then (case re_match (GreedyStar k # r) (Suc i) xs of
                    Some (p # ps, t) \<Rightarrow> Some ((x # p) # ps, t)
                  | _ \<Rightarrow> None)
            else None) of
        Some m \<Rightarrow> Some m
      | None \<Rightarrow>
          (case re_match r i (x # xs) of
             None \<Rightarrow> None
           | Some (ps, t) \<Rightarrow> Some ([] # ps, t)))"
| "re_match (GreedyPlus k # r) i [] = None"
| "re_match (GreedyPlus k # r) i (x # xs) =
     (if in_class k x
      then (case re_match (GreedyStar k # r) (Suc i) xs of
              Some (p # ps, t) \<Rightarrow> Some ((x # p) # ps, t)
            | _ \<Rightarrow> None)
      else None)"

text \<open>A match consumes a prefix of the subject: the pieces, then the rest.\<close>

lemma re_match_concat: "re_match r i s = Some (ps, t) \<Longrightarrow> concat ps @ t = s"
  by (induction r i s arbitrary: ps t rule: re_match.induct)
     (auto split: if_splits option.splits list.splits prod.splits)

text \<open>
  A replacement template is literal text and group references.  Each pattern below has at
  most one group, around a single item; \<open>TGroup n\<close> stands for the text matched by item
  \<open>n\<close> of the pattern (counted from 0).
\<close>

datatype tmpl = TLit string | TGroup nat

fun expand :: "tmpl list \<Rightarrow> string list \<Rightarrow> string" where
  "expand [] ps = []"
| "expand (TLit l # r) ps = l @ expand r ps"
| "expand (TGroup n # r) ps = (if n < length ps then ps ! n else []) @ expand r ps"

text \<open>
  \<^verbatim>\<open>re.sub(pattern, repl, s)\<close>: scan from the left; where the pattern matches, emit
  the expanded template and go on after the match, elsewhere copy one character.  An empty
  match is replaced too, and the character after it is copied.
\<close>

function re_sub :: "item list \<Rightarrow> tmpl list \<Rightarrow> nat \<Rightarrow> string \<Rightarrow> string" where
  "re_sub pat rp i [] =
     (case re_match pat i [] of
        None \<Rightarrow> []
      | Some (ps, t) \<Rightarrow> expand rp ps)"
| "re_sub pat rp i (c # cs) =
     (case re_match pat i (c # cs) of
        None \<Rightarrow> c # re_sub pat rp (Suc i) cs
      | Some (ps, t) \<Rightarrow>
          if concat ps = [] then expand rp ps @ c # re_sub pat rp (Suc i) cs
          else expand rp ps @ re_sub pat rp (i + length (concat ps)) t)"
  by pat_completeness auto
termination
proof (relation "measure (\<lambda>(pat, rp, i, s). length s)")
  show "wf (measure (\<lambda>(pat, rp, i, s). length s))" by simp
next
  fix pat :: "item list" and rp :: "tmpl list" and i :: nat and c :: char and cs :: string
  show "((pat, rp, Suc i, cs), (pat, rp, i, c # cs)) \<in> measure (\<lambda>(pat, rp, i, s). length s)"
    by simp
next
  fix pat :: "item list" and rp :: "tmpl list" and i :: nat and c :: char and cs :: string
    and x2 :: "string list \<times> string" and ps :: "string list" and t :: string
  show "((pat, rp, Suc i, cs), (pat, rp, i, c # cs)) \<in> measure (\<lambda>(pat, rp, i, s). length s)"
    by simp
next
  fix pat :: "item list" and rp :: "tmpl list" and i :: nat and c :: char and cs :: string
    and x2 :: "string list \<times> string" and ps :: "string list" and t :: string
  assume m: "re_match pat i (c # cs) = Some x2" and x2: "(ps, t) = x2"
    and ne: "concat ps \<noteq> []"
  from m x2 have "concat ps @ t = c # cs"
    by (simp add: re_match_concat)
  then have "length (concat ps) + length t = Suc (length cs)"
    by (metis length_append length_Cons)
  with ne show "((pat, rp, i + length (concat ps), t), (pat, rp, i, c # cs))
      \<in> measure (\<lambda>(pat, rp, i, s). length s)"
    by (cases "concat ps") simp_all
qed

section \<open>The Markdown helpers\<close>

text \<open>\<^verbatim>\<open>r"!\[.*?\]\(.*?\)"\<close>\<close>

definition image_pat :: "item list" where
  "image_pat = [Lit CHR ''!'', Lit CHR ''['', LazyStar Dot, Lit CHR '']'',
                Lit CHR ''('', LazyStar Dot, Lit CHR '')'']"

text \<open>\<^verbatim>\<open>_remove_images_from_markdown_content\<close>\<close>

definition remove_images_from_markdown_content :: "string \<Rightarrow> string" where
  "remove_images_from_markdown_content markdown_content =
     re_sub image_pat [] 0 markdown_content"

text \<open>\<^verbatim>\<open>r"\*\*(.*?)\*\*"\<close> with \<^verbatim>\<open>r"**\1**"\<close>, \<^verbatim>\<open>r"__(.*?)__"\<close> with \<^verbatim>\<open>r"__\1__"\<close>
  and \<^verbatim>\<open>r"\*(.*?)\*"\<close> with \<^verbatim>\<open>r"*\1*"\<close>: the group is item 2, 2 and 1.\<close>

definition bold_pat :: "item list" where
  "bold_pat = [Lit CHR ''*'', Lit CHR ''*'', LazyStar Dot, Lit CHR ''*'', Lit CHR ''*'']"

definition bold_repl :: "tmpl list" where
  "bold_repl = [TLit ''**'', TGroup 2, TLit ''**'']"

definition underline_pat :: "item list" where
  "underline_pat = [Lit CHR ''_'', Lit CHR ''_'', LazyStar Dot, Lit CHR ''_'', Lit CHR ''_'']"

definition underline_repl :: "tmpl list" where
  "underline_repl = [TLit ''__'', TGroup 2, TLit ''__'']"

definition italic_pat :: "item list" where
  "italic_pat = [Lit CHR ''*'', LazyStar Dot, Lit CHR ''*'']"

definition italic_repl :: "tmpl list" where
  "italic_repl = [TLit ''*'', TGroup 1, TLit ''*'']"

text \<open>The three substitutions of \<^verbatim>\<open>_format_markdown_content\<close>, in the source's order.\<close>

definition keep_styles :: "string \<Rightarrow> string" where
  "keep_styles markdown_content =
     re_sub italic_pat italic_repl 0
       (re_sub underline_pat underline_repl 0
         (re_sub bold_pat bold_repl 0 markdown_content))"

text \<open>\<^verbatim>\<open>r'^\s*\*\*[^*]+\*\*\s*$'\<close>, used with \<^verbatim>\<open>re.match\<close> (anchored at index 0).\<close>

definition heading_pat :: "item list" where
  "heading_pat = [Caret, GreedyStar Space, Lit CHR ''*'', Lit CHR ''*'',
                  GreedyPlus (NotChar CHR ''*''), Lit CHR ''*'', Lit CHR ''*'',
                  GreedyStar Space, Dollar]"

text \<open>The body of the loop over the lines: a matching line becomes
  \<^verbatim>\<open>f"## {line.strip(' *')}"\<close>, any other line stays.\<close>

definition promote_line :: "string \<Rightarrow> string" where
  "promote_line line =
     (if re_match heading_pat 0 line \<noteq> None then ''## '' @ strip_chars '' *'' line
      else line)"

text \<open>\<^verbatim>\<open>_format_markdown_content\<close>: the loop assigns each index once, from the line at
  that index alone, so it is a \<open>map\<close>.\<close>

definition format_markdown_content :: "string \<Rightarrow> string" where
  "format_markdown_content markdown_content =
     py_join [nl] (map promote_line (split_nl (keep_styles markdown_content)))"

section \<open>Values, exceptions, the log and the PDF engine\<close>

text \<open>
  \<^verbatim>\<open>extract_text_content\<close> returns a string or \<^verbatim>\<open>False\<close>, so results are Python
  values.  An exception carries its message (\<^verbatim>\<open>str(e)\<close>).  The module logs through
  \<^verbatim>\<open>logger\<close>; the model keeps the records, level and message, in order.
\<close>

datatype pyval = Str string | Bool bool | NoneVal

datatype exc = FileNotFoundError string | ValueError string | NotADirectoryError string
  | IsADirectoryError string | PermissionError string | OSError string | TypeError string
  | EngineError string

fun exc_str :: "exc \<Rightarrow> string" where
  "exc_str (FileNotFoundError m) = m"
| "exc_str (ValueError m) = m"
| "exc_str (NotADirectoryError m) = m"
| "exc_str (IsADirectoryError m) = m"
| "exc_str (PermissionError m) = m"
| "exc_str (OSError m) = m"
| "exc_str (TypeError m) = m"
| "exc_str (EngineError m) = m"

datatype level = INFO | WARNING | ERROR

type_synonym log = "(level \<times> string) list"

text \<open>
  The PDF engine (\<^verbatim>\<open>pymupdf\<close>, \<^verbatim>\<open>pymupdf4llm\<close>) is not part of the repository: it is a
  parameter.  \<open>to_markdown\<close> is \<^verbatim>\<open>to_markdown(path, write_images=False)\<close>;
  \<open>page_texts\<close> is \<^verbatim>\<open>pymupdf.open(path)\<close> followed by \<^verbatim>\<open>page.get_text("text")\<close> on each
  page.  Either returns its result or raises.
\<close>

record engine =
  to_markdown :: "string \<Rightarrow> exc + string"
  page_texts :: "string \<Rightarrow> exc + string list"

text \<open>The instance: \<^verbatim>\<open>self.pdf_path\<close> and \<^verbatim>\<open>self.memory_file\<close>, the latter \<^verbatim>\<open>None\<close>
  or a reference to a \<^verbatim>\<open>BytesIO\<close> object.\<close>

record handler =
  pdf_path :: string
  memory_file :: "nat option"

definition markers_warning :: string where
  "markers_warning = ''Specified start or end markers not found. Returning full content.''"

section \<open>Extraction\<close>

text \<open>
  \<^verbatim>\<open>extract_markdown_content(self, cleaned=False, start=None, end=None)\<close>.  A marker is
  \<^verbatim>\<open>None\<close> or a string; Python's truth test \<^verbatim>\<open>if start\<close> holds for a non-empty string
  only.  The \<^verbatim>\<open>try\<close> block can raise in the engine call only; the handler logs and
  returns the message.
\<close>

definition truthy :: "string option \<Rightarrow> bool" where
  "truthy m = (case m of None \<Rightarrow> False | Some s \<Rightarrow> s \<noteq> [])"

definition extract_markdown_content ::
  "engine \<Rightarrow> handler \<Rightarrow> bool \<Rightarrow> string option \<Rightarrow> string option \<Rightarrow> pyval \<times> log" where
  "extract_markdown_content eng self cleaned start end =
     (case to_markdown eng (pdf_path self) of
        Inl e \<Rightarrow>
          (Str (''An error occurred while extracting content: '' @ exc_str e),
           [(ERROR, ''An error occurred while extracting content: '' @ exc_str e)])
      | Inr md \<Rightarrow>
          (let markdown_content =
                 (if cleaned then remove_images_from_markdown_content md else md);
               markdown_content = format_markdown_content markdown_content
           in if truthy start \<or> truthy end
              then
                (let start_idx =
                       (case start of
                          None \<Rightarrow> 0
                        | Some a \<Rightarrow> if a \<noteq> [] then py_find markdown_content a 0 else 0);
                     end_idx =
                       (case end of
                          None \<Rightarrow> int (length markdown_content)
                        | Some b \<Rightarrow>
                            if b \<noteq> [] then py_find markdown_content b start_idx
                            else int (length markdown_content))
                 in if start_idx = - 1 \<or> (truthy end \<and> end_idx = - 1)
                    then (Str (strip markdown_content), [(WARNING, markers_warning)])
                    else (Str (strip (py_slice markdown_content start_idx end_idx)), []))
              else (Str markdown_content, [])))"

text \<open>\<^verbatim>\<open>extract_text_content(self, start=None, end=None)\<close>: the pages' texts joined by a
  blank line, the same slicing, and \<^verbatim>\<open>False\<close> on any exception.\<close>

definition extract_text_content ::
  "engine \<Rightarrow> handler \<Rightarrow> string option \<Rightarrow> string option \<Rightarrow> pyval \<times> log" where
  "extract_text_content eng self start end =
     (case page_texts eng (pdf_path self) of
        Inl e \<Rightarrow>
          (Bool False,
           [(ERROR, ''An error occurred while extracting text content: '' @ exc_str e)])
      | Inr pages \<Rightarrow>
          (let text_content = py_join [nl, nl] pages
           in if truthy start \<or> truthy end
              then
                (let start_idx =
                       (case start of
                          None \<Rightarrow> 0
                        | Some a \<Rightarrow> if a \<noteq> [] then py_find text_content a 0 else 0);
                     end_idx =
                       (case end of
                          None \<Rightarrow> int (length text_content)
                        | Some b \<Rightarrow>
                            if b \<noteq> [] then py_find text_content b start_idx
                            else int (length text_content))
                 in if start_idx = - 1 \<or> (truthy end \<and> end_idx = - 1)
                    then (Str (strip text_content), [(WARNING, markers_warning)])
                    else (Str (strip (py_slice text_content start_idx end_idx)), []))
              else (Str text_content, [])))"

section \<open>Marker slicing\<close>

text \<open>
  The vocabulary of the claims about markers: \<open>sub\<close> occurs in \<open>s\<close> at index \<open>i\<close>; \<open>i\<close>
  is its first occurrence at or after \<open>k\<close>; it occurs somewhere (Python's \<^verbatim>\<open>sub in s\<close>).
\<close>

definition occurs_at :: "string \<Rightarrow> string \<Rightarrow> nat \<Rightarrow> bool" where
  "occurs_at sub s i = (i \<le> length s \<and> starts_with (drop i s) sub)"

definition first_occurrence :: "string \<Rightarrow> string \<Rightarrow> nat \<Rightarrow> nat \<Rightarrow> bool" where
  "first_occurrence sub s k i =
     (k \<le> i \<and> occurs_at sub s i \<and> (\<forall>j \<in> set [k..<i]. \<not> occurs_at sub s j))"

definition occurs :: "string \<Rightarrow> string \<Rightarrow> bool" where
  "occurs sub s = (\<exists>i \<in> set [0..<Suc (length s)]. occurs_at sub s i)"

text \<open>\<^verbatim>\<open>find\<close> returns the first occurrence at or after its start, and \<^verbatim>\<open>-1\<close> when
  there is none.\<close>

lemma find_from_none:
  "(\<And>j. j \<le> length s \<Longrightarrow> \<not> starts_with (drop j s) sub) \<Longrightarrow> find_from sub s k = - 1"
proof (induction s arbitrary: k)
  case Nil
  from Nil[of 0] have "sub \<noteq> []" by auto
  then show ?case by simp
next
  case (Cons c cs)
  from Cons.prems[of 0] have h: "\<not> starts_with (c # cs) sub" by simp
  have "find_from sub cs (Suc k) = - 1"
  proof (rule Cons.IH)
    fix j assume "j \<le> length cs"
    then show "\<not> starts_with (drop j cs) sub" using Cons.prems[of "Suc j"] by simp
  qed
  with h show ?case by simp
qed

lemma find_from_first:
  "d \<le> length s \<Longrightarrow> starts_with (drop d s) sub \<Longrightarrow>
   (\<And>j. j < d \<Longrightarrow> \<not> starts_with (drop j s) sub) \<Longrightarrow> find_from sub s k = int (k + d)"
proof (induction s arbitrary: k d)
  case Nil
  then have "sub = []" by (cases sub) auto
  with Nil show ?case by simp
next
  case (Cons c cs)
  show ?case
  proof (cases d)
    case 0
    with Cons.prems show ?thesis by simp
  next
    case (Suc d')
    from Cons.prems(3)[of 0] Suc have h: "\<not> starts_with (c # cs) sub" by simp
    have "find_from sub cs (Suc k) = int (Suc k + d')"
    proof (rule Cons.IH)
      show "d' \<le> length cs" using Cons.prems(1) Suc by simp
      show "starts_with (drop d' cs) sub" using Cons.prems(2) Suc by simp
      fix j assume "j < d'"
      then show "\<not> starts_with (drop j cs) sub" using Cons.prems(3)[of "Suc j"] Suc by simp
    qed
    with h Suc show ?thesis by simp
  qed
qed

lemma py_find_first:
  assumes "first_occurrence sub s k i"
  shows "py_find s sub (int k) = int i"
proof -
  from assms have ki: "k \<le> i" and il: "i \<le> length s"
    and at: "starts_with (drop i s) sub"
    and before: "\<And>j. k \<le> j \<Longrightarrow> j < i \<Longrightarrow> \<not> occurs_at sub s j"
    by (auto simp: first_occurrence_def occurs_at_def)
  have "find_from sub (drop k s) k = int (k + (i - k))"
  proof (rule find_from_first)
    show "i - k \<le> length (drop k s)" using ki il by simp
    show "starts_with (drop (i - k) (drop k s)) sub" using ki at by simp
    fix j assume j: "j < i - k"
    then have "\<not> occurs_at sub s (k + j)" using before[of "k + j"] by simp
    moreover have "k + j \<le> length s" using j il by simp
    ultimately show "\<not> starts_with (drop j (drop k s)) sub"
      by (simp add: occurs_at_def add.commute)
  qed
  with ki il show ?thesis by (simp add: py_find_def)
qed

lemma py_find_absent:
  assumes "\<not> occurs sub s"
  shows "py_find s sub st = - 1"
proof -
  from assms have no: "\<And>j. j \<le> length s \<Longrightarrow> \<not> starts_with (drop j s) sub"
    by (auto simp: occurs_def occurs_at_def)
  have "find_from sub (drop m s) m = - 1" if "m \<le> length s" for m
  proof (rule find_from_none)
    fix j assume "j \<le> length (drop m s)"
    with that have "m + j \<le> length s" by simp
    from no[OF this] show "\<not> starts_with (drop j (drop m s)) sub" by (simp add: add.commute)
  qed
  then show ?thesis by (auto simp: py_find_def Let_def)
qed

lemma py_slice_nat: "i \<le> j \<Longrightarrow> py_slice s (int i) (int j) = take (j - i) (drop i s)"
  by (cases "length s \<le> i") (simp_all add: py_slice_def clip_index_def Let_def min_def)

lemma truthy_Some: "truthy (Some a) = (a \<noteq> [])"
  by (simp add: truthy_def)

lemma not_occurs_nonempty: "\<not> occurs sub s \<Longrightarrow> sub \<noteq> []"
  by (auto simp: occurs_def occurs_at_def)

text \<open>
  Claim C1, for an end marker that is not empty: when \<open>a\<close> first occurs in the processed
  content \<open>c\<close> at index \<open>i\<close> and \<open>b\<close> first occurs at or after \<open>i\<close> at index \<open>j\<close>, both
  extractions return \<open>c[i:j]\<close> trimmed, and log nothing.  The processed content is the
  formatted (and, if asked, cleaned) Markdown, or the pages joined by a blank line.  The
  start marker may be empty: its first occurrence is index 0, where the code starts.  An
  empty end marker fails Python's truth test, and the call is the call with no end
  marker.
\<close>

theorem markers_found_slice:
  assumes b: "b \<noteq> []"
    and fa: "first_occurrence a c 0 i" and fb: "first_occurrence b c i j"
  shows "(to_markdown eng (pdf_path self) = Inr md \<and>
          c = format_markdown_content
                (if cleaned then remove_images_from_markdown_content md else md) \<longrightarrow>
          extract_markdown_content eng self cleaned (Some a) (Some b)
            = (Str (strip (take (j - i) (drop i c))), []))
       \<and> (page_texts eng (pdf_path self) = Inr pages \<and> c = py_join [nl, nl] pages \<longrightarrow>
          extract_text_content eng self (Some a) (Some b)
            = (Str (strip (take (j - i) (drop i c))), []))
       \<and> extract_markdown_content eng self cleaned start (Some [])
            = extract_markdown_content eng self cleaned start None
       \<and> extract_text_content eng self start (Some [])
            = extract_text_content eng self start None"
proof -
  from fa have ia: "py_find c a 0 = int i" using py_find_first[of a c 0 i] by simp
  have i0: "i = 0" if "a = []"
  proof (rule ccontr)
    assume "i \<noteq> 0"
    then have "0 \<in> set [0..<i]" by simp
    with fa have "\<not> occurs_at a c 0" unfolding first_occurrence_def by blast
    with that show False by (simp add: occurs_at_def)
  qed
  from fb have jb: "py_find c b (int i) = int j" by (rule py_find_first)
  from fb have ij: "i \<le> j" by (simp add: first_occurrence_def)
  have sl: "py_slice c (int i) (int j) = take (j - i) (drop i c)"
    using ij by (rule py_slice_nat)
  have sl0: "py_slice c 0 (int j) = take j c"
    using py_slice_nat[of 0 j c] by simp
  have e1: "extract_markdown_content eng self cleaned start (Some [])
      = extract_markdown_content eng self cleaned start None"
    by (simp add: extract_markdown_content_def truthy_def Let_def split: sum.splits)
  have e2: "extract_text_content eng self start (Some [])
      = extract_text_content eng self start None"
    by (simp add: extract_text_content_def truthy_def Let_def split: sum.splits)
  have main: "(to_markdown eng (pdf_path self) = Inr md \<and>
          c = format_markdown_content
                (if cleaned then remove_images_from_markdown_content md else md) \<longrightarrow>
          extract_markdown_content eng self cleaned (Some a) (Some b)
            = (Str (strip (take (j - i) (drop i c))), []))
       \<and> (page_texts eng (pdf_path self) = Inr pages \<and> c = py_join [nl, nl] pages \<longrightarrow>
          extract_text_content eng self (Some a) (Some b)
            = (Str (strip (take (j - i) (drop i c))), []))"
  proof (cases "a = []")
    case True
    with i0 jb have "py_find c b 0 = int j" "i = 0" by simp_all
    with True b sl0 show ?thesis
      by (auto simp: extract_markdown_content_def extract_text_content_def truthy_Some Let_def)
  next
    case False
    with b ia jb sl show ?thesis
      by (auto simp: extract_markdown_content_def extract_text_content_def truthy_Some Let_def)
  qed
  from main e1 e2 show ?thesis by blast
qed

theorem markers_found_slice_witness:
  "extract_markdown_content
     \<lparr>to_markdown = (\<lambda>p. Inr ''xA yB''), page_texts = (\<lambda>p. Inr [''xA yB''])\<rparr>
     \<lparr>pdf_path = ''f.pdf'', memory_file = None\<rparr> False (Some ''A'') (Some ''B'')
     = (Str ''A y'', [])
   \<and> extract_text_content
     \<lparr>to_markdown = (\<lambda>p. Inr ''xA yB''), page_texts = (\<lambda>p. Inr [''xA yB''])\<rparr>
     \<lparr>pdf_path = ''f.pdf'', memory_file = None\<rparr> (Some ''A'') (Some ''B'')
     = (Str ''A y'', [])
   \<and> extract_markdown_content
     \<lparr>to_markdown = (\<lambda>p. Inr ''xA yB''), page_texts = (\<lambda>p. Inr [''xA yB''])\<rparr>
     \<lparr>pdf_path = ''f.pdf'', memory_file = None\<rparr> False (Some []) (Some ''B'')
     = (Str ''xA y'', [])
   \<and> extract_text_content
     \<lparr>to_markdown = (\<lambda>p. Inr ''xA yB''), page_texts = (\<lambda>p. Inr [''xA yB''])\<rparr>
     \<lparr>pdf_path = ''f.pdf'', memory_file = None\<rparr> (Some []) (Some ''B'')
     = (Str ''xA y'', [])"
proof -
  have b: "''B'' \<noteq> []" by simp
  have fa: "first_occurrence ''A'' ''xA yB'' 0 1" by code_simp
  have fb: "first_occurrence ''B'' ''xA yB'' 1 4" by code_simp
  have fe: "first_occurrence [] ''xA yB'' 0 0" by code_simp
  have fb0: "first_occurrence ''B'' ''xA yB'' 0 4" by code_simp
  have fm: "format_markdown_content ''xA yB'' = ''xA yB''" by code_simp
  have st: "strip ''A y'' = ''A y''" "strip ''xA y'' = ''xA y''" by code_simp+
  from markers_found_slice[OF b fa fb,
      of "\<lparr>to_markdown = (\<lambda>p. Inr ''xA yB''), page_texts = (\<lambda>p. Inr [''xA yB''])\<rparr>"
         "\<lparr>pdf_path = ''f.pdf'', memory_file = None\<rparr>" "''xA yB''" False "[''xA yB'']"]
    markers_found_slice[OF b fe fb0,
      of "\<lparr>to_markdown = (\<lambda>p. Inr ''xA yB''), page_texts = (\<lambda>p. Inr [''xA yB''])\<rparr>"
         "\<lparr>pdf_path = ''f.pdf'', memory_file = None\<rparr>" "''xA yB''" False "[''xA yB'']"]
  show ?thesis by (simp add: fm st)
qed

text \<open>
  With \<^verbatim>\<open>start="A"\<close> and \<^verbatim>\<open>end=""\<close> on the content \<^verbatim>\<open>"A x"\<close>, both markers occur first
  at index 0, so the span from one to the other is empty; the code slices to the end of
  the content instead.
\<close>

theorem markers_found_slice_counterexample:
  "first_occurrence ''A'' ''A x'' 0 0 \<and> first_occurrence [] ''A x'' 0 0
   \<and> format_markdown_content ''A x'' = ''A x'' \<and> py_join [nl, nl] [''A x''] = ''A x''
   \<and> extract_markdown_content
        \<lparr>to_markdown = (\<lambda>p. Inr ''A x''), page_texts = (\<lambda>p. Inr [''A x''])\<rparr>
        \<lparr>pdf_path = ''f.pdf'', memory_file = None\<rparr> False (Some ''A'') (Some [])
       = (Str ''A x'', [])
   \<and> extract_text_content
        \<lparr>to_markdown = (\<lambda>p. Inr ''A x''), page_texts = (\<lambda>p. Inr [''A x''])\<rparr>
        \<lparr>pdf_path = ''f.pdf'', memory_file = None\<rparr> (Some ''A'') (Some [])
       = (Str ''A x'', [])
   \<and> Str (strip (take (0 - 0) (drop 0 ''A x''))) \<noteq> Str ''A x''"
proof -
  have fa: "first_occurrence ''A'' ''A x'' 0 0" by code_simp
  have fb: "first_occurrence [] ''A x'' 0 0" by code_simp
  have fm: "format_markdown_content ''A x'' = ''A x''" by code_simp
  have st: "strip ''A x'' = ''A x''" by code_simp
  have fi: "py_find ''A x'' ''A'' 0 = 0" by code_simp
  have sl: "py_slice ''A x'' 0 3 = ''A x''" by code_simp
  have em: "strip [] = []" by code_simp
  show ?thesis
    by (simp add: fa fb fm st fi sl em extract_markdown_content_def extract_text_content_def
          truthy_def)
qed

text \<open>
  Claim C2: when a marker that was given does not occur in the processed content, both
  extractions return a value (the model has no other outcome): the whole content,
  trimmed, with one warning logged.
\<close>

theorem marker_absent_full:
  assumes "(start = Some a \<and> \<not> occurs a c) \<or> (end = Some b \<and> \<not> occurs b c)"
  shows "(to_markdown eng (pdf_path self) = Inr md \<and>
          c = format_markdown_content
                (if cleaned then remove_images_from_markdown_content md else md) \<longrightarrow>
          extract_markdown_content eng self cleaned start end
            = (Str (strip c), [(WARNING, markers_warning)]))
       \<and> (page_texts eng (pdf_path self) = Inr pages \<and> c = py_join [nl, nl] pages \<longrightarrow>
          extract_text_content eng self start end
            = (Str (strip c), [(WARNING, markers_warning)]))"
  using assms
proof
  assume h: "start = Some a \<and> \<not> occurs a c"
  then have ne: "a \<noteq> []" by (auto dest: not_occurs_nonempty)
  from h have "py_find c a 0 = - 1" by (simp add: py_find_absent)
  with h ne show ?thesis
    by (auto simp: extract_markdown_content_def extract_text_content_def truthy_Some Let_def)
next
  assume h: "end = Some b \<and> \<not> occurs b c"
  then have ne: "b \<noteq> []" by (auto dest: not_occurs_nonempty)
  from h have f: "\<And>st. py_find c b st = - 1" by (simp add: py_find_absent)
  from h ne f show ?thesis
    by (auto simp: extract_markdown_content_def extract_text_content_def truthy_Some Let_def
             split: option.splits)
qed

theorem marker_absent_full_witness:
  "\<not> occurs ''Q'' ''xA yB ''
   \<and> extract_markdown_content
     \<lparr>to_markdown = (\<lambda>p. Inr ''xA yB ''), page_texts = (\<lambda>p. Inr [''xA yB ''])\<rparr>
     \<lparr>pdf_path = ''f.pdf'', memory_file = None\<rparr> False (Some ''Q'') (Some ''B'')
     = (Str ''xA yB'', [(WARNING, markers_warning)])
   \<and> extract_text_content
     \<lparr>to_markdown = (\<lambda>p. Inr ''xA yB ''), page_texts = (\<lambda>p. Inr [''xA yB ''])\<rparr>
     \<lparr>pdf_path = ''f.pdf'', memory_file = None\<rparr> (Some ''Q'') (Some ''B'')
     = (Str ''xA yB'', [(WARNING, markers_warning)])"
proof -
  have no: "\<not> occurs ''Q'' ''xA yB ''" by code_simp
  then have h: "(Some ''Q'' = Some ''Q'' \<and> \<not> occurs ''Q'' ''xA yB '')
      \<or> (Some ''B'' = Some ''B'' \<and> \<not> occurs ''B'' ''xA yB '')" by simp
  have fm: "format_markdown_content ''xA yB '' = ''xA yB ''" by code_simp
  have st: "strip ''xA yB '' = ''xA yB''" by code_simp
  from marker_absent_full[OF h,
      of "\<lparr>to_markdown = (\<lambda>p. Inr ''xA yB ''), page_texts = (\<lambda>p. Inr [''xA yB ''])\<rparr>"
         "\<lparr>pdf_path = ''f.pdf'', memory_file = None\<rparr>" "''xA yB ''" False "[''xA yB '']"]
  show ?thesis by (simp add: no fm st)
qed

text \<open>
  Claim C3: when the engine raises, \<^verbatim>\<open>extract_markdown_content\<close> returns a string, the
  error message after a fixed prefix, and \<^verbatim>\<open>extract_text_content\<close> returns \<^verbatim>\<open>False\<close>;
  the two values differ whatever the message.
\<close>

theorem failure_conventions:
  "(to_markdown eng (pdf_path self) = Inl e \<longrightarrow>
      fst (extract_markdown_content eng self cleaned start end)
        = Str (''An error occurred while extracting content: '' @ exc_str e))
   \<and> (page_texts eng (pdf_path self) = Inl e \<longrightarrow>
      fst (extract_text_content eng self start end) = Bool False)
   \<and> Str (''An error occurred while extracting content: '' @ exc_str e) \<noteq> Bool False"
  by (simp add: extract_markdown_content_def extract_text_content_def)


theorem failure_conventions_witness:
  "fst (extract_markdown_content
     \<lparr>to_markdown = (\<lambda>p. Inl (EngineError ''bad xref'')),
      page_texts = (\<lambda>p. Inl (EngineError ''bad xref''))\<rparr>
     \<lparr>pdf_path = ''f.pdf'', memory_file = None\<rparr> True None None)
     = Str ''An error occurred while extracting content: bad xref''
   \<and> fst (extract_text_content
     \<lparr>to_markdown = (\<lambda>p. Inl (EngineError ''bad xref'')),
      page_texts = (\<lambda>p. Inl (EngineError ''bad xref''))\<rparr>
     \<lparr>pdf_path = ''f.pdf'', memory_file = None\<rparr> None None) = Bool False"
  using failure_conventions[of
      "\<lparr>to_markdown = (\<lambda>p. Inl (EngineError ''bad xref'')),
        page_texts = (\<lambda>p. Inl (EngineError ''bad xref''))\<rparr>"
      "\<lparr>pdf_path = ''f.pdf'', memory_file = None\<rparr>" "EngineError ''bad xref''" True None None]
  by simp

section \<open>The style substitutions\<close>

text \<open>What an item can have matched: a literal matches itself.\<close>

fun piece_ok :: "item \<Rightarrow> string \<Rightarrow> bool" where
  "piece_ok (Lit c) p = (p = [c])"
| "piece_ok it p = True"

lemma re_match_pieces: "re_match r i s = Some (ps, t) \<Longrightarrow> list_all2 piece_ok r ps"
  by (induction r i s arbitrary: ps t rule: re_match.induct)
     (auto split: if_splits option.splits list.splits prod.splits)

text \<open>A substitution whose template rebuilds every match leaves the subject as it is.\<close>

lemma re_sub_id:
  assumes "\<And>i s ps t. re_match pat i s = Some (ps, t) \<Longrightarrow> expand rp ps = concat ps"
  shows "re_sub pat rp i s = s"
  using assms
proof (induction pat rp i s rule: re_sub.induct)
  case (1 pat rp i)
  show ?case
  proof (cases "re_match pat i []")
    case None
    then show ?thesis by simp
  next
    case (Some m)
    obtain ps t where m: "m = (ps, t)" by (cases m)
    from Some m have "concat ps @ t = []" by (simp add: re_match_concat)
    moreover from Some m have "expand rp ps = concat ps" using "1.prems" by simp
    ultimately show ?thesis using Some m by simp
  qed
next
  case (2 pat rp i c cs)
  show ?case
  proof (cases "re_match pat i (c # cs)")
    case None
    with "2.IH"(1) "2.prems" show ?thesis by simp
  next
    case (Some m)
    obtain ps t where m: "m = (ps, t)" by (cases m)
    from Some m have cat: "concat ps @ t = c # cs" by (simp add: re_match_concat)
    from Some m have ex: "expand rp ps = concat ps" using "2.prems" by simp
    show ?thesis
    proof (cases "concat ps = []")
      case True
      have "re_sub pat rp (Suc i) cs = cs"
        using "2.IH"(2)[OF Some m[symmetric] True] "2.prems" by simp
      with True Some m ex show ?thesis by (simp del: concat_eq_Nil_conv)
    next
      case False
      have "re_sub pat rp (i + length (concat ps)) t = t"
        using "2.IH"(3)[OF Some m[symmetric] False] "2.prems" by simp
      with False Some m ex cat show ?thesis by (simp del: concat_eq_Nil_conv)
    qed
  qed
qed

lemma bold_rebuilt: "re_match bold_pat i s = Some (ps, t) \<Longrightarrow> expand bold_repl ps = concat ps"
  by (drule re_match_pieces) (auto simp: bold_pat_def bold_repl_def list_all2_Cons1)

lemma underline_rebuilt:
  "re_match underline_pat i s = Some (ps, t) \<Longrightarrow> expand underline_repl ps = concat ps"
  by (drule re_match_pieces) (auto simp: underline_pat_def underline_repl_def list_all2_Cons1)

lemma italic_rebuilt:
  "re_match italic_pat i s = Some (ps, t) \<Longrightarrow> expand italic_repl ps = concat ps"
  by (drule re_match_pieces) (auto simp: italic_pat_def italic_repl_def list_all2_Cons1)

lemma keep_styles_id: "keep_styles s = s"
  by (simp add: keep_styles_def re_sub_id bold_rebuilt underline_rebuilt italic_rebuilt)

text \<open>
  Claim C7: the bold, underline and italic substitutions of the formatting pass return
  their input unchanged, each one and the three in sequence, so the formatting pass is the
  heading promotion alone.
\<close>

theorem style_substitutions_identity:
  "re_sub bold_pat bold_repl 0 s = s
   \<and> re_sub underline_pat underline_repl 0 s = s
   \<and> re_sub italic_pat italic_repl 0 s = s
   \<and> keep_styles s = s
   \<and> format_markdown_content s = py_join [nl] (map promote_line (split_nl s))"
  by (simp add: format_markdown_content_def keep_styles_id re_sub_id bold_rebuilt
        underline_rebuilt italic_rebuilt)

section \<open>The file system, the buffer and the instance's operations\<close>

text \<open>
  What the module sees of its environment: the file system (a path names a regular file
  with its bytes, a directory, or nothing), which paths the process is permitted to
  create or truncate, the \<^verbatim>\<open>BytesIO\<close> objects (a reference is an index into \<open>heap\<close>;
  an object has its bytes, its position, and is open or closed), the file-system
  operations the module has performed, and the log.
\<close>

datatype node = File string | Dir

datatype io = Exists string | ReadFile string | WriteFile string

record bytesio =
  buf :: string
  pos :: nat
  closed :: bool

record world =
  files :: "string \<Rightarrow> node option"
  writable :: "string \<Rightarrow> bool"
  heap :: "bytesio list"
  trace :: "io list"
  logged :: log

text \<open>\<^verbatim>\<open>CapPDFHandler.__init__(self, resource_path)\<close>: \<^verbatim>\<open>os.path.exists\<close> holds for a
  file and for a directory.\<close>

definition CapPDFHandler_init :: "world \<Rightarrow> string \<Rightarrow> (exc + handler) \<times> world" where
  "CapPDFHandler_init w resource_path =
     (let w1 = w\<lparr>trace := trace w @ [Exists resource_path]\<rparr>
      in if files w resource_path = None
         then (Inl (FileNotFoundError (''File not found: '' @ resource_path)), w1)
         else (Inr \<lparr>pdf_path = resource_path, memory_file = None\<rparr>, w1))"

text \<open>The path as \<^verbatim>\<open>open\<close> prints it in a message (\<^verbatim>\<open>repr\<close> of a string with no quote,
  backslash or control character in it).\<close>

definition quoted :: "string \<Rightarrow> string" where
  "quoted p = CHR 0x27 # p @ [CHR 0x27]"




text \<open>UTF-8 of a string of code points below 256.\<close>

definition utf8_encode :: "string \<Rightarrow> string" where
  "utf8_encode s =
     concat (map (\<lambda>c. if (of_char c :: nat) < 128 then [c]
                       else [char_of (192 + (of_char c :: nat) div 64),
                             char_of (128 + (of_char c :: nat) mod 64)]) s)"

text \<open>The name of a value's type, as \<^verbatim>\<open>write\<close> prints it.\<close>

fun type_name :: "pyval \<Rightarrow> string" where
  "type_name (Str s) = ''str''"
| "type_name (Bool b) = ''bool''"
| "type_name NoneVal = ''NoneType''"

text \<open>\<^verbatim>\<open>with open(path, "w", encoding="utf-8") as f: f.write(v)\<close>.  \<^verbatim>\<open>open\<close> raises on a
  directory and on a path the process may not write, and otherwise creates or truncates
  the file; \<^verbatim>\<open>write\<close> raises on a value that is not a string.\<close>

definition write_text :: "world \<Rightarrow> string \<Rightarrow> pyval \<Rightarrow> exc option \<times> world" where
  "write_text w path v =
     (if files w path = Some Dir
      then (Some (IsADirectoryError (''[Errno 21] Is a directory: '' @ quoted path)), w)
      else if \<not> writable w path
      then (Some (PermissionError (''[Errno 13] Permission denied: '' @ quoted path)), w)
      else (case v of
              Str s \<Rightarrow>
                (None, w\<lparr>files := (files w)(path \<mapsto> File (utf8_encode s)),
                         trace := trace w @ [WriteFile path]\<rparr>)
            | _ \<Rightarrow>
                (Some (TypeError (''write() argument must be str, not '' @ type_name v)),
                 w\<lparr>files := (files w)(path \<mapsto> File []),
                   trace := trace w @ [WriteFile path]\<rparr>)))"

text \<open>\<^verbatim>\<open>save_markdown_to_file(self, output_path, markdown_content=None, cleaned=False,
  start=None, end=None)\<close>: returns nothing and raises nothing; the result is the world
  after the call.\<close>

definition save_markdown_to_file ::
  "engine \<Rightarrow> world \<Rightarrow> handler \<Rightarrow> string \<Rightarrow> pyval \<Rightarrow> bool \<Rightarrow> string option \<Rightarrow> string option
   \<Rightarrow> world" where
  "save_markdown_to_file eng w self output_path markdown_content cleaned start end =
     (let (content, lg) =
            (if markdown_content = NoneVal
             then extract_markdown_content eng self cleaned start end
             else (markdown_content, []));
          w1 = w\<lparr>logged := logged w @ lg\<rparr>
      in case write_text w1 output_path content of
           (None, w2) \<Rightarrow>
             w2\<lparr>logged := logged w2 @
                   [(INFO, ''Markdown file saved successfully: '' @ output_path)]\<rparr>
         | (Some e, w2) \<Rightarrow>
             w2\<lparr>logged := logged w2 @
                   [(ERROR, ''Failed to save Markdown file: '' @ exc_str e)]\<rparr>)"

text \<open>\<^verbatim>\<open>save_text_to_file(self, output_path, text_content=None, start=None, end=None)\<close>\<close>

definition save_text_to_file ::
  "engine \<Rightarrow> world \<Rightarrow> handler \<Rightarrow> string \<Rightarrow> pyval \<Rightarrow> string option \<Rightarrow> string option \<Rightarrow> world" where
  "save_text_to_file eng w self output_path text_content start end =
     (let (content, lg) =
            (if text_content = NoneVal
             then extract_text_content eng self start end
             else (text_content, []));
          w1 = w\<lparr>logged := logged w @ lg\<rparr>
      in case write_text w1 output_path content of
           (None, w2) \<Rightarrow>
             w2\<lparr>logged := logged w2 @
                   [(INFO, ''Plain text file saved successfully: '' @ output_path)]\<rparr>
         | (Some e, w2) \<Rightarrow>
             w2\<lparr>logged := logged w2 @
                   [(ERROR, ''Failed to save plain text file: '' @ exc_str e)]\<rparr>)"

text \<open>
  \<^verbatim>\<open>validate_paths(source, destination)\<close> takes two \<^verbatim>\<open>pathlib.Path\<close> objects.  A path
  is its string and its \<^verbatim>\<open>suffix\<close> (computed by \<^verbatim>\<open>pathlib\<close> from the string);
  \<^verbatim>\<open>exists\<close>, \<^verbatim>\<open>is_file\<close> and \<^verbatim>\<open>is_dir\<close> ask the file system.
\<close>

record pypath =
  path_str :: string
  path_suffix :: string

definition path_exists :: "world \<Rightarrow> pypath \<Rightarrow> bool" where
  "path_exists w p = (files w (path_str p) \<noteq> None)"

definition is_file :: "world \<Rightarrow> pypath \<Rightarrow> bool" where
  "is_file w p = (case files w (path_str p) of Some (File d) \<Rightarrow> True | _ \<Rightarrow> False)"

definition is_dir :: "world \<Rightarrow> pypath \<Rightarrow> bool" where
  "is_dir w p = (files w (path_str p) = Some Dir)"

text \<open>\<^verbatim>\<open>str.lower\<close> below code point 256: A-Z and the accented capitals but the
  multiplication sign.\<close>

definition lower_char :: "char \<Rightarrow> char" where
  "lower_char c =
     (let n = (of_char c :: nat)
      in if (65 \<le> n \<and> n \<le> 90) \<or> (192 \<le> n \<and> n \<le> 222 \<and> n \<noteq> 215)
         then char_of (n + 32) else c)"

definition lower :: "string \<Rightarrow> string" where
  "lower s = map lower_char s"

definition validate_paths :: "world \<Rightarrow> pypath \<Rightarrow> pypath \<Rightarrow> exc + unit" where
  "validate_paths w source destination =
     (if \<not> path_exists w source \<or> \<not> is_file w source
      then Inl (FileNotFoundError
                  (''The source file '' @ path_str source @ '' does not exist.''))
      else if lower (path_suffix source) \<noteq> ''.pdf''
      then Inl (ValueError ''The source file must be a PDF.'')
      else if \<not> path_exists w destination
      then Inl (NotADirectoryError
                  (''The destination directory '' @ path_str destination
                     @ '' does not exist.''))
      else if \<not> is_dir w destination
      then Inl (NotADirectoryError
                  (''The destination path '' @ path_str destination
                     @ '' is not a directory.''))
      else Inr ())"

section \<open>Construction and validation\<close>

text \<open>Construction fails when nothing exists at the path, and otherwise stores the path
  and does nothing but the existence check.\<close>

lemma init_missing:
  "files w p = None \<Longrightarrow>
   fst (CapPDFHandler_init w p) = Inl (FileNotFoundError (''File not found: '' @ p))"
  by (simp add: CapPDFHandler_init_def Let_def)

lemma init_present:
  "files w p \<noteq> None \<Longrightarrow>
   CapPDFHandler_init w p
     = (Inr \<lparr>pdf_path = p, memory_file = None\<rparr>, w\<lparr>trace := trace w @ [Exists p]\<rparr>)"
  by (simp add: CapPDFHandler_init_def Let_def)

text \<open>
  Claim C4 at the path of an existing directory: \<^verbatim>\<open>os.path.exists\<close> holds, so the
  constructor returns an instance for a path that names no file, where
  \<^verbatim>\<open>validate_paths\<close>, which also asks \<^verbatim>\<open>is_file\<close>, raises \<^verbatim>\<open>FileNotFoundError\<close>.
\<close>

theorem init_accepts_directory:
  "fst (CapPDFHandler_init
      \<lparr>files = (\<lambda>p. if p = ''/tmp'' then Some Dir else None), writable = (\<lambda>p. True),
       heap = [], trace = [], logged = []\<rparr> ''/tmp'')
     = Inr \<lparr>pdf_path = ''/tmp'', memory_file = None\<rparr>"
  by (simp add: CapPDFHandler_init_def)

lemma validate_paths_rejects_directory:
  "validate_paths
      \<lparr>files = (\<lambda>p. if p = ''/tmp'' then Some Dir else None), writable = (\<lambda>p. True),
       heap = [], trace = [], logged = []\<rparr>
      \<lparr>path_str = ''/tmp'', path_suffix = []\<rparr> \<lparr>path_str = ''/tmp'', path_suffix = []\<rparr>
     = Inl (FileNotFoundError ''The source file /tmp does not exist.'')"
  by (simp add: validate_paths_def path_exists_def is_file_def)

text \<open>
  Claim C8: \<^verbatim>\<open>validate_paths\<close> checks in order and reports the first failure.  A source
  that is no regular file raises \<^verbatim>\<open>FileNotFoundError\<close>; a source file whose suffix is
  not \<^verbatim>\<open>.pdf\<close> in any letter case raises \<^verbatim>\<open>ValueError\<close>; with a PDF source, a
  destination that is missing or is not a directory raises \<^verbatim>\<open>NotADirectoryError\<close>;
  a PDF source with a destination directory is accepted.
\<close>

theorem validate_paths_cases:
  "(\<not> is_file w source \<longrightarrow>
      validate_paths w source destination
        = Inl (FileNotFoundError (''The source file '' @ path_str source @ '' does not exist.'')))
   \<and> (is_file w source \<and> lower (path_suffix source) \<noteq> ''.pdf'' \<longrightarrow>
      validate_paths w source destination = Inl (ValueError ''The source file must be a PDF.''))
   \<and> (is_file w source \<and> lower (path_suffix source) = ''.pdf''
        \<and> \<not> path_exists w destination \<longrightarrow>
      validate_paths w source destination
        = Inl (NotADirectoryError
                 (''The destination directory '' @ path_str destination @ '' does not exist.'')))
   \<and> (is_file w source \<and> lower (path_suffix source) = ''.pdf''
        \<and> path_exists w destination \<and> \<not> is_dir w destination \<longrightarrow>
      validate_paths w source destination
        = Inl (NotADirectoryError
                 (''The destination path '' @ path_str destination @ '' is not a directory.'')))
   \<and> (is_file w source \<and> lower (path_suffix source) = ''.pdf'' \<and> is_dir w destination \<longrightarrow>
      validate_paths w source destination = Inr ())"
  by (auto simp: validate_paths_def is_file_def is_dir_def path_exists_def
           split: option.splits node.splits)


theorem validate_paths_cases_witness:
  "validate_paths
     \<lparr>files = (\<lambda>p. if p = ''a.pdf'' \<or> p = ''b.txt'' then Some (File ''x'')
                    else if p = ''out'' then Some Dir else None),
      writable = (\<lambda>p. True), heap = [], trace = [], logged = []\<rparr>
     \<lparr>path_str = ''c.pdf'', path_suffix = ''.pdf''\<rparr> \<lparr>path_str = ''out'', path_suffix = []\<rparr>
     = Inl (FileNotFoundError ''The source file c.pdf does not exist.'')
   \<and> validate_paths
     \<lparr>files = (\<lambda>p. if p = ''a.pdf'' \<or> p = ''b.txt'' then Some (File ''x'')
                    else if p = ''out'' then Some Dir else None),
      writable = (\<lambda>p. True), heap = [], trace = [], logged = []\<rparr>
     \<lparr>path_str = ''b.txt'', path_suffix = ''.txt''\<rparr> \<lparr>path_str = ''out'', path_suffix = []\<rparr>
     = Inl (ValueError ''The source file must be a PDF.'')
   \<and> validate_paths
     \<lparr>files = (\<lambda>p. if p = ''a.pdf'' \<or> p = ''b.txt'' then Some (File ''x'')
                    else if p = ''out'' then Some Dir else None),
      writable = (\<lambda>p. True), heap = [], trace = [], logged = []\<rparr>
     \<lparr>path_str = ''a.pdf'', path_suffix = ''.pdf''\<rparr> \<lparr>path_str = ''gone'', path_suffix = []\<rparr>
     = Inl (NotADirectoryError ''The destination directory gone does not exist.'')
   \<and> validate_paths
     \<lparr>files = (\<lambda>p. if p = ''a.pdf'' \<or> p = ''b.txt'' then Some (File ''x'')
                    else if p = ''out'' then Some Dir else None),
      writable = (\<lambda>p. True), heap = [], trace = [], logged = []\<rparr>
     \<lparr>path_str = ''a.pdf'', path_suffix = ''.pdf''\<rparr> \<lparr>path_str = ''b.txt'', path_suffix = ''.txt''\<rparr>
     = Inl (NotADirectoryError ''The destination path b.txt is not a directory.'')
   \<and> validate_paths
     \<lparr>files = (\<lambda>p. if p = ''a.pdf'' \<or> p = ''b.txt'' then Some (File ''x'')
                    else if p = ''out'' then Some Dir else None),
      writable = (\<lambda>p. True), heap = [], trace = [], logged = []\<rparr>
     \<lparr>path_str = ''a.pdf'', path_suffix = ''.pdf''\<rparr> \<lparr>path_str = ''out'', path_suffix = []\<rparr>
     = Inr ()"
proof -
  let ?w = "\<lparr>files = (\<lambda>p. if p = ''a.pdf'' \<or> p = ''b.txt'' then Some (File ''x'')
                    else if p = ''out'' then Some Dir else None),
      writable = (\<lambda>p. True), heap = [], trace = [], logged = []\<rparr>"
  let ?a = "\<lparr>path_str = ''a.pdf'', path_suffix = ''.pdf''\<rparr>"
  let ?b = "\<lparr>path_str = ''b.txt'', path_suffix = ''.txt''\<rparr>"
  let ?c = "\<lparr>path_str = ''c.pdf'', path_suffix = ''.pdf''\<rparr>"
  let ?out = "\<lparr>path_str = ''out'', path_suffix = []\<rparr>"
  let ?gone = "\<lparr>path_str = ''gone'', path_suffix = []\<rparr>"
  have lo: "lower ''.pdf'' = ''.pdf''" "lower ''.txt'' \<noteq> ''.pdf''" by code_simp+
  have fa: "is_file ?w ?a" and fb: "is_file ?w ?b" and fc: "\<not> is_file ?w ?c"
    by (simp_all add: is_file_def)
  have d1: "is_dir ?w ?out" and d2: "\<not> path_exists ?w ?gone"
    and d3: "path_exists ?w ?b \<and> \<not> is_dir ?w ?b"
    by (simp_all add: is_dir_def path_exists_def)
  show ?thesis
    using validate_paths_cases[of ?w ?c ?out] validate_paths_cases[of ?w ?b ?out]
      validate_paths_cases[of ?w ?a ?gone] validate_paths_cases[of ?w ?a ?b]
      validate_paths_cases[of ?w ?a ?out] lo fa fb fc d1 d2 d3
    by simp
qed

section \<open>Saving\<close>

text \<open>
  Claim C10: with the content omitted and the engine raising \<open>e\<close>, on an output path that
  can be opened for writing, \<^verbatim>\<open>save_markdown_to_file\<close> writes the error message as the
  file's content and logs the extraction error followed by the success message.  The
  operation has no result besides the world it leaves, so the caller is told nothing.
\<close>

theorem save_markdown_writes_error_text:
  assumes "to_markdown eng (pdf_path self) = Inl e"
    and "writable w output_path" and "files w output_path \<noteq> Some Dir"
  shows "save_markdown_to_file eng w self output_path NoneVal cleaned start end
     = w\<lparr>files := (files w)(output_path \<mapsto>
            File (utf8_encode (''An error occurred while extracting content: '' @ exc_str e))),
         trace := trace w @ [WriteFile output_path],
         logged := logged w @
           [(ERROR, ''An error occurred while extracting content: '' @ exc_str e),
            (INFO, ''Markdown file saved successfully: '' @ output_path)]\<rparr>"
  using assms
  by (simp add: save_markdown_to_file_def extract_markdown_content_def write_text_def)

theorem save_markdown_writes_error_text_witness:
  "files (save_markdown_to_file
      \<lparr>to_markdown = (\<lambda>p. Inl (EngineError ''bad'')), page_texts = (\<lambda>p. Inr [])\<rparr>
      \<lparr>files = (\<lambda>p. if p = ''a.pdf'' then Some (File ''x'') else None),
       writable = (\<lambda>p. True), heap = [], trace = [], logged = []\<rparr>
      \<lparr>pdf_path = ''a.pdf'', memory_file = None\<rparr> ''a.md'' NoneVal False None None) ''a.md''
     = Some (File ''An error occurred while extracting content: bad'')
   \<and> logged (save_markdown_to_file
      \<lparr>to_markdown = (\<lambda>p. Inl (EngineError ''bad'')), page_texts = (\<lambda>p. Inr [])\<rparr>
      \<lparr>files = (\<lambda>p. if p = ''a.pdf'' then Some (File ''x'') else None),
       writable = (\<lambda>p. True), heap = [], trace = [], logged = []\<rparr>
      \<lparr>pdf_path = ''a.pdf'', memory_file = None\<rparr> ''a.md'' NoneVal False None None)
     = [(ERROR, ''An error occurred while extracting content: bad''),
        (INFO, ''Markdown file saved successfully: a.md'')]"
proof -
  have u: "utf8_encode ''An error occurred while extracting content: bad''
      = ''An error occurred while extracting content: bad''" by code_simp
  show ?thesis
    using save_markdown_writes_error_text[of
      "\<lparr>to_markdown = (\<lambda>p. Inl (EngineError ''bad'')), page_texts = (\<lambda>p. Inr [])\<rparr>"
      "\<lparr>pdf_path = ''a.pdf'', memory_file = None\<rparr>" "EngineError ''bad''"
      "\<lparr>files = (\<lambda>p. if p = ''a.pdf'' then Some (File ''x'') else None),
       writable = (\<lambda>p. True), heap = [], trace = [], logged = []\<rparr>" "''a.md''" False None None] u
    by simp
qed

section \<open>The cached buffer\<close>
























section \<open>Heading promotion\<close>

text \<open>
  Claim C5 at a line the pattern accepts but \<^verbatim>\<open>strip(' *')\<close> does not clean: the pattern
  allows any whitespace (\<^verbatim>\<open>\s*\<close>) around the bold span, the strip removes spaces and
  asterisks only.  A tab before the span stops the strip on the left, so the line
  \<^verbatim>\<open>"\t**Heading**"\<close> is promoted to \<^verbatim>\<open>"## \t**Heading"\<close>: the opening bold marker
  stays, and the result is not \<^verbatim>\<open>"## Heading"\<close>.
\<close>

theorem heading_after_tab_keeps_marker:
  "re_match heading_pat 0 (CHR 0x09 # ''**Heading**'') \<noteq> None
   \<and> promote_line (CHR 0x09 # ''**Heading**'') = ''## '' @ CHR 0x09 # ''**Heading''
   \<and> format_markdown_content (CHR 0x09 # ''**Heading**'') = ''## '' @ CHR 0x09 # ''**Heading''
   \<and> format_markdown_content ''  **Heading**  '' = ''## Heading''"
  by code_simp

section \<open>Image references\<close>

text \<open>Without \<^verbatim>\<open>^\<close> a pattern matches the same way at every index.\<close>

lemma re_match_index: "Caret \<notin> set r \<Longrightarrow> re_match r i s = re_match r j s"
proof (induction r i s arbitrary: j rule: re_match.induct)
  case (3 c r i x xs)
  from "3.prems" show ?case using "3.IH"[of "Suc j"] by simp
next
  case (5 r i s)
  from "5.prems" show ?case using "5.IH"[of j] by simp
next
  case (6 k r i)
  from "6.prems" show ?case using "6.IH"[of j] by simp
next
  case (7 k r i x xs)
  show ?case
  proof (cases "re_match r i (x # xs)")
    case None
    with "7.prems" show ?thesis using "7.IH"(1)[of j] "7.IH"(2)[of "Suc j"] by (cases "in_class k x") simp_all
  next
    case (Some m)
    with "7.prems" show ?thesis using "7.IH"(1)[of j] by simp
  qed
next
  case (8 k r i)
  from "8.prems" show ?case using "8.IH"[of j] by simp
next
  case (9 k r i x xs)
  show ?case
  proof (cases "in_class k x")
    case True
    show ?thesis
    proof (cases "re_match (GreedyStar k # r) (Suc i) xs")
      case None
      with True "9.prems" show ?thesis using "9.IH"(1)[of "Suc j"] "9.IH"(2)[of j] by simp
    next
      case (Some m)
      with True "9.prems" show ?thesis using "9.IH"(1)[of "Suc j"] "9.IH"(2)[of j]
        by (auto split: option.splits list.splits prod.splits)
    qed
  next
    case False
    with "9.prems" show ?thesis using "9.IH"(2)[of j] by simp
  qed
next
  case (11 k r i x xs)
  from "11.prems" show ?case using "11.IH"[of "Suc j"] by simp
qed simp_all


text \<open>\<^verbatim>\<open>re.search(pattern, s) is not None\<close>: the pattern matches at some position.\<close>

fun re_search :: "item list \<Rightarrow> nat \<Rightarrow> string \<Rightarrow> bool" where
  "re_search pat i [] = (re_match pat i [] \<noteq> None)"
| "re_search pat i (c # cs) = (re_match pat i (c # cs) \<noteq> None \<or> re_search pat (Suc i) cs)"

text \<open>The output holds an image reference: the pattern of
  \<^verbatim>\<open>_remove_images_from_markdown_content\<close> matches somewhere in it.\<close>

definition has_image :: "string \<Rightarrow> bool" where
  "has_image s = re_search image_pat 0 s"

definition matches_image :: "string \<Rightarrow> bool" where
  "matches_image s = (re_match image_pat 0 s \<noteq> None)"

text \<open>The pattern after \<^verbatim>\<open>![\<close>, and after \<^verbatim>\<open>](\<close>.\<close>

definition img_tail1 :: "string \<Rightarrow> bool" where
  "img_tail1 s =
     (re_match [LazyStar Dot, Lit CHR '']'', Lit CHR ''('', LazyStar Dot, Lit CHR '')''] 0 s
        \<noteq> None)"

definition img_tail2 :: "string \<Rightarrow> bool" where
  "img_tail2 s = (re_match [LazyStar Dot, Lit CHR '')''] 0 s \<noteq> None)"

lemma lit_step:
  "re_match (Lit c # r) i s \<noteq> None \<longleftrightarrow> (\<exists>t. s = c # t \<and> re_match r (Suc i) t \<noteq> None)"
  by (cases s) (auto split: option.splits)

lemma lazy_pieces: "re_match (LazyStar k # r) i s = Some (ps, t) \<Longrightarrow> \<exists>p ps'. ps = p # ps'"
  by (drule re_match_pieces) (auto simp: list_all2_Cons1)

lemma lazy_step:
  "re_match (LazyStar k # r) i (c # t) \<noteq> None \<longleftrightarrow>
     re_match r i (c # t) \<noteq> None
     \<or> (in_class k c \<and> re_match (LazyStar k # r) (Suc i) t \<noteq> None)"
proof (cases "re_match r i (c # t)")
  case (Some m)
  then show ?thesis by (cases m) simp
next
  case None
  show ?thesis
  proof (cases "re_match (LazyStar k # r) (Suc i) t")
    case None
    with \<open>re_match r i (c # t) = None\<close> show ?thesis by simp
  next
    case (Some m)
    obtain ps tt where m: "m = (ps, tt)" by (cases m)
    with Some obtain p ps' where "ps = p # ps'" using lazy_pieces by blast
    with Some m \<open>re_match r i (c # t) = None\<close> show ?thesis by simp
  qed
qed

lemma img_tail2_Nil: "\<not> img_tail2 []"
  by (simp add: img_tail2_def)

lemma img_tail2_Cons: "img_tail2 (c # t) \<longleftrightarrow> c = CHR '')'' \<or> (c \<noteq> nl \<and> img_tail2 t)"
proof -
  have "re_match [LazyStar Dot, Lit CHR '')''] (Suc 0) t
      = re_match [LazyStar Dot, Lit CHR '')''] 0 t"
    by (rule re_match_index) simp
  then show ?thesis
    unfolding img_tail2_def lazy_step lit_step by auto
qed

lemma img_tail1_Nil: "\<not> img_tail1 []"
  by (simp add: img_tail1_def)

lemma img_tail1_Cons:
  "img_tail1 (c # t) \<longleftrightarrow>
     (c = CHR '']'' \<and> (\<exists>y. t = CHR ''('' # y \<and> img_tail2 y)) \<or> (c \<noteq> nl \<and> img_tail1 t)"
proof -
  have 1: "re_match [LazyStar Dot, Lit CHR '']'', Lit CHR ''('', LazyStar Dot, Lit CHR '')'']
             (Suc 0) t
      = re_match [LazyStar Dot, Lit CHR '']'', Lit CHR ''('', LazyStar Dot, Lit CHR '')''] 0 t"
    by (rule re_match_index) simp
  have 2: "\<And>y. re_match [LazyStar Dot, Lit CHR '')''] (Suc (Suc 0)) y
      = re_match [LazyStar Dot, Lit CHR '')''] 0 y"
    by (rule re_match_index) simp
  show ?thesis
    unfolding img_tail1_def img_tail2_def lazy_step lit_step 1 2[symmetric] by auto
qed

lemma matches_image_iff:
  "matches_image s \<longleftrightarrow> (\<exists>y. s = CHR ''!'' # CHR ''['' # y \<and> img_tail1 y)"
proof -
  have 1: "\<And>y. re_match [LazyStar Dot, Lit CHR '']'', Lit CHR ''('', LazyStar Dot, Lit CHR '')'']
             (Suc (Suc 0)) y
      = re_match [LazyStar Dot, Lit CHR '']'', Lit CHR ''('', LazyStar Dot, Lit CHR '')''] 0 y"
    by (rule re_match_index) simp
  show ?thesis
    unfolding matches_image_def image_pat_def img_tail1_def lit_step 1[symmetric] by auto
qed

lemma re_match_image_index: "re_match image_pat i s \<noteq> None \<longleftrightarrow> matches_image s"
  unfolding matches_image_def using re_match_index[of image_pat i s 0]
  by (simp add: image_pat_def)

lemma re_match_image_None: "re_match image_pat i s = None \<longleftrightarrow> \<not> matches_image s"
  using re_match_image_index[of i s] by blast

lemma has_image_iff: "re_search image_pat i s \<longleftrightarrow> (\<exists>k. matches_image (drop k s))"
proof (induction s arbitrary: i)
  case Nil
  show ?case by (simp add: re_match_image_None)
next
  case (Cons c cs)
  have "(\<exists>k. matches_image (drop k (c # cs)))
      \<longleftrightarrow> matches_image (c # cs) \<or> (\<exists>k. matches_image (drop k cs))"
  proof
    assume "\<exists>k. matches_image (drop k (c # cs))"
    then obtain k where k: "matches_image (drop k (c # cs))" ..
    then show "matches_image (c # cs) \<or> (\<exists>k. matches_image (drop k cs))"
      by (cases k) auto
  next
    assume "matches_image (c # cs) \<or> (\<exists>k. matches_image (drop k cs))"
    then show "\<exists>k. matches_image (drop k (c # cs))"
    proof
      assume "matches_image (c # cs)"
      then have "matches_image (drop 0 (c # cs))" by simp
      then show ?thesis ..
    next
      assume "\<exists>k. matches_image (drop k cs)"
      then obtain k where "matches_image (drop (Suc k) (c # cs))" by auto
      then show ?thesis ..
    qed
  qed
  with Cons[of "Suc i"] show ?case by (simp add: re_match_image_None)
qed

lemma has_image_Nil: "\<not> has_image []"
  by (simp add: has_image_def matches_image_iff re_match_image_None)

lemma has_image_Cons: "has_image (c # cs) \<longleftrightarrow> matches_image (c # cs) \<or> has_image cs"
  unfolding has_image_def by (simp add: re_match_image_None has_image_iff)

lemma img_tail1_tail2: "img_tail1 y \<Longrightarrow> img_tail2 y"
  by (induction y) (auto simp: img_tail1_Nil img_tail1_Cons img_tail2_Cons nl_def)

lemma matches_image_tail1: "matches_image x \<Longrightarrow> img_tail1 x"
  by (auto simp: matches_image_iff img_tail1_Cons nl_def)

lemma matches_image_tail2: "matches_image x \<Longrightarrow> img_tail2 x"
  by (auto simp: matches_image_iff img_tail2_Cons nl_def dest: img_tail1_tail2)

text \<open>One step of the removal: a match is dropped and the scan goes on after it; where
  nothing matches, one character is kept.\<close>

lemma remove_Nil: "re_sub image_pat [] i [] = []"
proof -
  have "\<not> matches_image []" by (simp add: matches_image_iff)
  then have "re_match image_pat i [] = None" by (simp add: re_match_image_None)
  then show ?thesis by simp
qed

lemma remove_keep:
  assumes "\<not> matches_image (c # cs)"
  shows "re_sub image_pat [] i (c # cs) = c # re_sub image_pat [] (Suc i) cs"
proof -
  from assms have "re_match image_pat i (c # cs) = None" by (simp add: re_match_image_None)
  then show ?thesis by simp
qed

lemma remove_drop:
  assumes "matches_image (c # cs)"
  shows "\<exists>m t j. c # cs = m @ t \<and> m \<noteq> []
           \<and> re_sub image_pat [] i (c # cs) = re_sub image_pat [] j t"
proof -
  from assms obtain ps t where m: "re_match image_pat i (c # cs) = Some (ps, t)"
    using re_match_image_None[of i "c # cs"] by (cases "re_match image_pat i (c # cs)") auto
  from re_match_pieces[OF m] have "concat ps \<noteq> []"
    by (auto simp: image_pat_def list_all2_Cons1)
  with m have "re_sub image_pat [] i (c # cs) = re_sub image_pat [] (i + length (concat ps)) t"
    by (simp del: concat_eq_Nil_conv)
  moreover from re_match_concat[OF m] have "c # cs = concat ps @ t" by simp
  ultimately show ?thesis using \<open>concat ps \<noteq> []\<close> by blast
qed

declare re_sub.simps [simp del]

lemma remove_tail2: "img_tail2 (re_sub image_pat [] i x) \<Longrightarrow> img_tail2 x"
proof (induction x arbitrary: i rule: length_induct)
  case (1 x)
  show ?case
  proof (cases x)
    case Nil
    with 1 show ?thesis by (simp add: remove_Nil)
  next
    case (Cons c cs)
    show ?thesis
    proof (cases "matches_image (c # cs)")
      case True
      with Cons show ?thesis by (simp add: matches_image_tail2)
    next
      case False
      with 1 Cons show ?thesis by (auto simp: remove_keep img_tail2_Cons)
    qed
  qed
qed

lemma remove_tail1: "img_tail1 (re_sub image_pat [] i x) \<Longrightarrow> img_tail1 x"
proof (induction x arbitrary: i rule: length_induct)
  case (1 x)
  show ?case
  proof (cases x)
    case Nil
    with 1 show ?thesis by (simp add: remove_Nil)
  next
    case (Cons c cs)
    show ?thesis
    proof (cases "matches_image (c # cs)")
      case True
      with Cons show ?thesis by (simp add: matches_image_tail1)
    next
      case False
      with "1.prems" Cons
      have h: "(c = CHR '']'' \<and> (\<exists>y. re_sub image_pat [] (Suc i) cs = CHR ''('' # y \<and> img_tail2 y))
          \<or> (c \<noteq> nl \<and> img_tail1 (re_sub image_pat [] (Suc i) cs))"
        by (simp add: remove_keep img_tail1_Cons)
      then show ?thesis
      proof
        assume "c \<noteq> nl \<and> img_tail1 (re_sub image_pat [] (Suc i) cs)"
        with "1.IH" Cons show ?thesis by (auto simp: img_tail1_Cons)
      next
        assume a: "c = CHR '']'' \<and> (\<exists>y. re_sub image_pat [] (Suc i) cs = CHR ''('' # y \<and> img_tail2 y)"
        then obtain y where y: "re_sub image_pat [] (Suc i) cs = CHR ''('' # y" "img_tail2 y"
          by blast
        show ?thesis
        proof (cases "matches_image cs")
          case True
          then have "img_tail1 cs" by (rule matches_image_tail1)
          with a Cons show ?thesis by (simp add: img_tail1_Cons nl_def)
        next
          case nm: False
          show ?thesis
          proof (cases cs)
            case Nil
            with y show ?thesis by (simp add: remove_Nil)
          next
            case (Cons d ds)
            with nm y have "d = CHR ''(''" "img_tail2 (re_sub image_pat [] (Suc (Suc i)) ds)"
              by (simp_all add: remove_keep)
            then have "d = CHR ''(''" "img_tail2 ds" by (simp_all add: remove_tail2)
            with a Cons \<open>x = c # cs\<close> show ?thesis by (simp add: img_tail1_Cons)
          qed
        qed
      qed
    qed
  qed
qed

lemma occurs_iff: "occurs sub s \<longleftrightarrow> (\<exists>i\<le>length s. starts_with (drop i s) sub)"
proof -
  have "set [0..<Suc (length s)] = {i. i \<le> length s}"
    by (auto simp del: upt_Suc)
  then show ?thesis unfolding occurs_def occurs_at_def by blast
qed

lemma occurs_Cons: "occurs sub (c # cs) \<longleftrightarrow> starts_with (c # cs) sub \<or> occurs sub cs"
proof
  assume "occurs sub (c # cs)"
  then obtain i where i: "i \<le> length (c # cs)" "starts_with (drop i (c # cs)) sub"
    unfolding occurs_iff by blast
  show "starts_with (c # cs) sub \<or> occurs sub cs"
  proof (cases i)
    case 0
    with i show ?thesis by simp
  next
    case (Suc k)
    with i have "k \<le> length cs" "starts_with (drop k cs) sub" by simp_all
    then show ?thesis unfolding occurs_iff by blast
  qed
next
  assume "starts_with (c # cs) sub \<or> occurs sub cs"
  then show "occurs sub (c # cs)"
  proof
    assume "starts_with (c # cs) sub"
    then have "0 \<le> length (c # cs) \<and> starts_with (drop 0 (c # cs)) sub" by simp
    then show ?thesis unfolding occurs_iff by blast
  next
    assume "occurs sub cs"
    then obtain k where "k \<le> length cs" "starts_with (drop k cs) sub"
      unfolding occurs_iff by blast
    then have "Suc k \<le> length (c # cs) \<and> starts_with (drop (Suc k) (c # cs)) sub" by simp
    then show ?thesis unfolding occurs_iff by blast
  qed
qed

lemma occurs_suffix: "occurs sub t \<Longrightarrow> occurs sub (m @ t)"
  by (induction m) (simp_all add: occurs_Cons)

text \<open>Where no image reference of the input has an exclamation mark right before it,
  nothing that is left after the removal matches the pattern.\<close>

lemma remove_no_image:
  "\<not> occurs ''!!['' s \<Longrightarrow> \<not> has_image (re_sub image_pat [] i s)"
proof (induction s arbitrary: i rule: length_induct)
  case (1 s)
  show ?case
  proof (cases s)
    case Nil
    then show ?thesis by (simp add: remove_Nil has_image_Nil)
  next
    case (Cons c cs)
    show ?thesis
    proof (cases "matches_image (c # cs)")
      case True
      from remove_drop[OF True, of i] obtain m t j where
        mt: "c # cs = m @ t" "m \<noteq> []"
        and r: "re_sub image_pat [] i (c # cs) = re_sub image_pat [] j t" by blast
      from mt Cons have "length t < length s" by (cases m) (simp, metis length_append length_Cons add_Suc less_add_Suc2)
      moreover from "1.prems" mt Cons have "\<not> occurs ''!!['' t" using occurs_suffix by metis
      ultimately have "\<not> has_image (re_sub image_pat [] j t)" using "1.IH" by blast
      with r Cons show ?thesis by simp
    next
      case False
      from "1.prems" Cons have nst: "\<not> starts_with (c # cs) ''!![''" and ncs: "\<not> occurs ''!!['' cs"
        by (simp_all add: occurs_Cons)
      from ncs Cons "1.IH" have ih: "\<not> has_image (re_sub image_pat [] (Suc i) cs)" by simp
      have "\<not> matches_image (c # re_sub image_pat [] (Suc i) cs)"
      proof
        assume "matches_image (c # re_sub image_pat [] (Suc i) cs)"
        then obtain y where c: "c = CHR ''!''"
          and y: "re_sub image_pat [] (Suc i) cs = CHR ''['' # y" "img_tail1 y"
          by (auto simp: matches_image_iff)
        show False
        proof (cases "matches_image cs")
          case True
          with c nst show False by (auto simp: matches_image_iff)
        next
          case nm: False
          show False
          proof (cases cs)
            case Nil
            with y show False by (simp add: remove_Nil)
          next
            case (Cons d ds)
            with nm y have "d = CHR ''[''" "img_tail1 (re_sub image_pat [] (Suc (Suc i)) ds)"
              by (simp_all add: remove_keep)
            then have "d = CHR ''[''" "img_tail1 ds" by (simp_all add: remove_tail1)
            with c Cons have "matches_image (c # cs)" by (simp add: matches_image_iff)
            with False show False by simp
          qed
        qed
      qed
      with ih False Cons show ?thesis by (simp add: remove_keep has_image_Cons)
    qed
  qed
qed

text \<open>A match lies within one line, and a match in a part of a string is a match in the
  string.\<close>

lemma img_tail2_append: "img_tail2 s \<Longrightarrow> img_tail2 (s @ e)"
  by (induction s) (auto simp: img_tail2_Nil img_tail2_Cons)

lemma img_tail1_append: "img_tail1 s \<Longrightarrow> img_tail1 (s @ e)"
  by (induction s) (auto simp: img_tail1_Nil img_tail1_Cons img_tail2_append)

lemma matches_image_append: "matches_image s \<Longrightarrow> matches_image (s @ e)"
  by (auto simp: matches_image_iff img_tail1_append)

lemma has_image_append_left: "has_image u \<Longrightarrow> has_image (p @ u)"
  by (induction p) (simp_all add: has_image_Cons)

lemma has_image_append_right: "has_image u \<Longrightarrow> has_image (u @ e)"
proof (induction u)
  case Nil
  then show ?case by (simp add: has_image_Nil)
next
  case (Cons c u)
  then show ?case using matches_image_append[of "c # u" e] by (auto simp: has_image_Cons)
qed

lemma has_image_drop: "has_image (drop n s) \<Longrightarrow> has_image s"
  using has_image_append_left[of "drop n s" "take n s"] by simp

lemma has_image_take: "has_image (take n s) \<Longrightarrow> has_image s"
  using has_image_append_right[of "take n s" "drop n s"] by simp

lemma has_image_strip_with: "has_image (strip_with p s) \<Longrightarrow> has_image s"
proof -
  assume h: "has_image (strip_with p s)"
  let ?d = "dropWhile p s"
  have "rev ?d = takeWhile p (rev ?d) @ dropWhile p (rev ?d)" by simp
  then have "rev (rev ?d) = rev (takeWhile p (rev ?d) @ dropWhile p (rev ?d))" by simp
  then have d: "?d = strip_with p s @ rev (takeWhile p (rev ?d))"
    by (simp add: strip_with_def del: takeWhile_dropWhile_id)
  from h have "has_image (strip_with p s @ rev (takeWhile p (rev ?d)))"
    by (rule has_image_append_right)
  with d have "has_image ?d" by simp
  then have "has_image (takeWhile p s @ ?d)" by (rule has_image_append_left)
  then show ?thesis by simp
qed

lemma has_image_py_slice: "has_image (py_slice s a b) \<Longrightarrow> has_image s"
  by (auto simp: py_slice_def Let_def dest: has_image_take has_image_drop)

lemma img_tail2_line: "img_tail2 (x @ nl # y) \<Longrightarrow> img_tail2 x"
  by (induction x) (auto simp: img_tail2_Cons nl_def)

lemma img_tail1_line: "img_tail1 (x @ nl # y) \<Longrightarrow> img_tail1 x"
proof (induction x)
  case Nil
  then show ?case by (auto simp: img_tail1_Cons nl_def)
next
  case (Cons c x)
  from Cons.prems
  have "(c = CHR '']'' \<and> (\<exists>z. x @ nl # y = CHR ''('' # z \<and> img_tail2 z))
      \<or> (c \<noteq> nl \<and> img_tail1 (x @ nl # y))"
    by (simp add: img_tail1_Cons)
  then show ?case
  proof
    assume "c \<noteq> nl \<and> img_tail1 (x @ nl # y)"
    with Cons.IH show ?thesis by (simp add: img_tail1_Cons)
  next
    assume a: "c = CHR '']'' \<and> (\<exists>z. x @ nl # y = CHR ''('' # z \<and> img_tail2 z)"
    then obtain z where z: "x @ nl # y = CHR ''('' # z" "img_tail2 z" by blast
    then obtain x' where x': "x = CHR ''('' # x'" "z = x' @ nl # y"
      by (cases x) (auto simp: nl_def)
    with z have "img_tail2 x'" using img_tail2_line by blast
    with a x' show ?thesis by (simp add: img_tail1_Cons)
  qed
qed

lemma matches_image_line: "matches_image (x @ nl # y) \<Longrightarrow> matches_image x"
proof -
  assume "matches_image (x @ nl # y)"
  then obtain z where z: "x @ nl # y = CHR ''!'' # CHR ''['' # z" "img_tail1 z"
    by (auto simp: matches_image_iff)
  then obtain x1 where x1: "x = CHR ''!'' # x1" "x1 @ nl # y = CHR ''['' # z"
    by (cases x) (auto simp: nl_def)
  then obtain x2 where x2: "x1 = CHR ''['' # x2" "z = x2 @ nl # y"
    by (cases x1) (auto simp: nl_def)
  with z have "img_tail1 x2" using img_tail1_line by blast
  with x1 x2 show ?thesis by (simp add: matches_image_iff)
qed

lemma has_image_line: "has_image (x @ nl # y) \<longleftrightarrow> has_image x \<or> has_image y"
proof (induction x)
  case Nil
  have "\<not> matches_image (nl # y)" by (simp add: matches_image_iff nl_def)
  then show ?case by (simp add: has_image_Cons has_image_Nil)
next
  case (Cons c x)
  have "matches_image (c # x @ nl # y) \<longleftrightarrow> matches_image (c # x)"
    using matches_image_line[of "c # x" y] matches_image_append[of "c # x" "nl # y"] by auto
  with Cons show ?case by (auto simp: has_image_Cons)
qed

lemma has_image_join: "has_image (py_join [nl] ls) \<longleftrightarrow> (\<exists>l \<in> set ls. has_image l)"
  by (induction "[nl]" ls rule: py_join.induct) (auto simp: has_image_Nil has_image_line)

lemma split_nl_not_Nil: "split_nl s \<noteq> []"
  by (induction s) (auto split: list.splits)

lemma join_split_nl: "py_join [nl] (split_nl s) = s"
proof (induction s)
  case Nil
  show ?case by simp
next
  case (Cons c s)
  obtain l ls where l: "split_nl s = l # ls" using split_nl_not_Nil[of s] by (cases "split_nl s") auto
  show ?case
  proof (cases "c = nl")
    case True
    with Cons l show ?thesis by simp
  next
    case False
    with Cons l show ?thesis by (cases ls) auto
  qed
qed

lemma has_image_promote_line: "has_image (promote_line l) \<Longrightarrow> has_image l"
proof (cases "re_match heading_pat 0 l \<noteq> None")
  case False
  assume "has_image (promote_line l)"
  with False show ?thesis by (simp add: promote_line_def)
next
  case True
  assume "has_image (promote_line l)"
  with True have "has_image (''## '' @ strip_chars '' *'' l)" by (simp add: promote_line_def)
  then have "has_image (strip_chars '' *'' l)"
    by (simp add: has_image_Cons matches_image_iff)
  then show ?thesis unfolding strip_chars_def by (rule has_image_strip_with)
qed

lemma has_image_format: "has_image (format_markdown_content s) \<Longrightarrow> has_image s"
proof -
  assume "has_image (format_markdown_content s)"
  then have "has_image (py_join [nl] (map promote_line (split_nl s)))"
    by (simp add: format_markdown_content_def keep_styles_id)
  then obtain l where "l \<in> set (split_nl s)" "has_image (promote_line l)"
    by (auto simp: has_image_join)
  then have "\<exists>l \<in> set (split_nl s). has_image l" using has_image_promote_line by blast
  then have "has_image (py_join [nl] (split_nl s))" by (simp add: has_image_join)
  then show ?thesis by (simp add: join_split_nl)
qed

text \<open>
  Claim C6, for content in which no image reference stands right after an exclamation
  mark (the content does not contain \<^verbatim>\<open>!![\<close>): when the engine returns the content,
  \<^verbatim>\<open>extract_markdown_content\<close> with \<^verbatim>\<open>cleaned=True\<close> returns a string in which the
  pattern \<^verbatim>\<open>!\[.*?\]\(.*?\)\<close> matches nowhere, whatever the markers.
\<close>

theorem cleaned_output_has_no_image:
  assumes "to_markdown eng (pdf_path self) = Inr md" and "\<not> occurs ''!!['' md"
  shows "\<exists>out. fst (extract_markdown_content eng self True start end) = Str out
           \<and> \<not> has_image out"
proof -
  let ?c = "format_markdown_content (remove_images_from_markdown_content md)"
  from assms(2) have "\<not> has_image (remove_images_from_markdown_content md)"
    unfolding remove_images_from_markdown_content_def by (rule remove_no_image)
  then have c: "\<not> has_image ?c" using has_image_format by blast
  then have s: "\<not> has_image (strip ?c)"
    unfolding strip_def using has_image_strip_with by blast
  from c have p: "\<And>a b. \<not> has_image (strip (py_slice ?c a b))"
    unfolding strip_def using has_image_strip_with has_image_py_slice by blast
  show ?thesis
    using assms(1) c s p
    by (simp add: extract_markdown_content_def Let_def)
qed

text \<open>
  The removal is one pass from the left.  In \<^verbatim>\<open>"!![x](y)[a](b)"\<close> the reference
  \<^verbatim>\<open>![x](y)\<close> is removed, and the exclamation mark before it meets the link after it:
  the output is \<^verbatim>\<open>"![a](b)"\<close>, which the pattern matches.
\<close>

theorem cleaned_output_has_no_image_counterexample:
  "has_image ''!![x](y)[a](b)''
   \<and> fst (extract_markdown_content
        \<lparr>to_markdown = (\<lambda>p. Inr ''!![x](y)[a](b)''), page_texts = (\<lambda>p. Inr [])\<rparr>
        \<lparr>pdf_path = ''f.pdf'', memory_file = None\<rparr> True None None) = Str ''![a](b)''
   \<and> has_image ''![a](b)''"
  by code_simp

theorem cleaned_output_has_no_image_witness:
  "\<not> occurs ''!!['' ''a ![x](y) b''
   \<and> fst (extract_markdown_content
        \<lparr>to_markdown = (\<lambda>p. Inr ''a ![x](y) b''), page_texts = (\<lambda>p. Inr [])\<rparr>
        \<lparr>pdf_path = ''f.pdf'', memory_file = None\<rparr> True None None) = Str ''a  b''
   \<and> \<not> has_image ''a  b''"
proof -
  have no: "\<not> occurs ''!!['' ''a ![x](y) b''" by code_simp
  have ev: "fst (extract_markdown_content
        \<lparr>to_markdown = (\<lambda>p. Inr ''a ![x](y) b''), page_texts = (\<lambda>p. Inr [])\<rparr>
        \<lparr>pdf_path = ''f.pdf'', memory_file = None\<rparr> True None None) = Str ''a  b''"
    by code_simp
  from cleaned_output_has_no_image[of
      "\<lparr>to_markdown = (\<lambda>p. Inr ''a ![x](y) b''), page_texts = (\<lambda>p. Inr [])\<rparr>"
      "\<lparr>pdf_path = ''f.pdf'', memory_file = None\<rparr>" "''a ![x](y) b''" None None, OF _ no]
  have "\<exists>out. fst (extract_markdown_content
        \<lparr>to_markdown = (\<lambda>p. Inr ''a ![x](y) b''), page_texts = (\<lambda>p. Inr [])\<rparr>
        \<lparr>pdf_path = ''f.pdf'', memory_file = None\<rparr> True None None) = Str out
      \<and> \<not> has_image out" by simp
  with ev have "\<not> has_image ''a  b''" by simp
  with no ev show ?thesis by simp
qed

end
